theory Spec2Isabelle
  imports Main
begin

section \<open>SHA-256 hex digests\<close>

text \<open>
  The program hashes with \<^verbatim>\<open>hashlib.sha256(...).hexdigest()\<close>, which is library code.
  It is modelled here at bit level after FIPS 180-4, so that digests of concrete inputs can be
  computed inside the logic. A 32-bit word is a list of 32 booleans, least significant bit
  first; addition drops the final carry, so it wraps modulo \<open>2 ^ 32\<close>. Python \<^verbatim>\<open>str\<close>
  and \<^verbatim>\<open>bytes\<close> values are both \<^typ>\<open>string\<close>: a text is identified with its UTF-8
  bytes, so \<^verbatim>\<open>.encode()\<close> is the identity.
\<close>

type_synonym bits = "bool list"

fun xor3 :: "bool \<Rightarrow> bool \<Rightarrow> bool \<Rightarrow> bool" where
  "xor3 False False c = c"
| "xor3 False True c = (\<not> c)"
| "xor3 True False c = (\<not> c)"
| "xor3 True True c = c"

fun maj3 :: "bool \<Rightarrow> bool \<Rightarrow> bool \<Rightarrow> bool" where
  "maj3 False False c = False"
| "maj3 False True c = c"
| "maj3 True False c = c"
| "maj3 True True c = True"

fun ch3 :: "bool \<Rightarrow> bool \<Rightarrow> bool \<Rightarrow> bool" where
  "ch3 False f g = g"
| "ch3 True f g = f"

fun bxor3 :: "bits \<Rightarrow> bits \<Rightarrow> bits \<Rightarrow> bits" where
  "bxor3 (a # as) (b # bs) (c # cs) = xor3 a b c # bxor3 as bs cs"
| "bxor3 _ _ _ = []"

fun bmaj :: "bits \<Rightarrow> bits \<Rightarrow> bits \<Rightarrow> bits" where
  "bmaj (a # as) (b # bs) (c # cs) = maj3 a b c # bmaj as bs cs"
| "bmaj _ _ _ = []"

fun bch :: "bits \<Rightarrow> bits \<Rightarrow> bits \<Rightarrow> bits" where
  "bch (a # as) (b # bs) (c # cs) = ch3 a b c # bch as bs cs"
| "bch _ _ _ = []"

fun addc :: "bool \<Rightarrow> bits \<Rightarrow> bits \<Rightarrow> bits" where
  "addc c (a # as) (b # bs) = xor3 a b c # addc (maj3 a b c) as bs"
| "addc c _ _ = []"

definition add32 :: "bits \<Rightarrow> bits \<Rightarrow> bits" where
  "add32 x y = addc False x y"

definition rotr :: "nat \<Rightarrow> bits \<Rightarrow> bits" where
  "rotr n x = drop n x @ take n x"

definition shr :: "nat \<Rightarrow> bits \<Rightarrow> bits" where
  "shr n x = drop n x @ replicate n False"

definition ssig0 :: "bits \<Rightarrow> bits" where
  "ssig0 x = bxor3 (rotr 7 x) (rotr 18 x) (shr 3 x)"
definition ssig1 :: "bits \<Rightarrow> bits" where
  "ssig1 x = bxor3 (rotr 17 x) (rotr 19 x) (shr 10 x)"
definition bsig0 :: "bits \<Rightarrow> bits" where
  "bsig0 x = bxor3 (rotr 2 x) (rotr 13 x) (rotr 22 x)"
definition bsig1 :: "bits \<Rightarrow> bits" where
  "bsig1 x = bxor3 (rotr 6 x) (rotr 11 x) (rotr 25 x)"

fun next_w :: "bits list \<Rightarrow> bits" where
  "next_w [w0, w1, w2, w3, w4, w5, w6, w7, w8, w9, w10, w11, w12, w13, w14, w15] =
     add32 (add32 (add32 w0 (ssig0 w1)) w9) (ssig1 w14)"
| "next_w _ = []"

fun shift_state :: "bits \<Rightarrow> bits \<Rightarrow> bits list \<Rightarrow> bits list" where
  "shift_state t1 t2 [a, b, c, d, e, f, g, h] = [add32 t1 t2, a, b, c, add32 d t1, e, f, g]"
| "shift_state t1 t2 st = st"

fun round1 :: "bits list \<Rightarrow> bits \<Rightarrow> bits \<Rightarrow> bits list" where
  "round1 [a, b, c, d, e, f, g, h] k w =
     shift_state (add32 (add32 (add32 (add32 h (bsig1 e)) (bch e f g)) k) w)
          (add32 (bsig0 a) (bmaj a b c))
          [a, b, c, d, e, f, g, h]"
| "round1 st k w = st"

fun rounds :: "bits list \<Rightarrow> bits list \<Rightarrow> bits list \<Rightarrow> bits list" where
  "rounds st ws [] = st"
| "rounds st ws (k # ks) = rounds (round1 st k (hd ws)) (tl ws @ [next_w ws]) ks"

text \<open>a 32-bit constant from its 8 hex digits, most significant first\<close>
fun nib :: "char \<Rightarrow> bits" where
  "nib c = (if c = CHR ''0'' then [False, False, False, False]
       else if c = CHR ''1'' then [True, False, False, False]
       else if c = CHR ''2'' then [False, True, False, False]
       else if c = CHR ''3'' then [True, True, False, False]
       else if c = CHR ''4'' then [False, False, True, False]
       else if c = CHR ''5'' then [True, False, True, False]
       else if c = CHR ''6'' then [False, True, True, False]
       else if c = CHR ''7'' then [True, True, True, False]
       else if c = CHR ''8'' then [False, False, False, True]
       else if c = CHR ''9'' then [True, False, False, True]
       else if c = CHR ''a'' then [False, True, False, True]
       else if c = CHR ''b'' then [True, True, False, True]
       else if c = CHR ''c'' then [False, False, True, True]
       else if c = CHR ''d'' then [True, False, True, True]
       else if c = CHR ''e'' then [False, True, True, True]
       else [True, True, True, True])"

fun of_hex :: "string \<Rightarrow> bits" where
  "of_hex [] = []"
| "of_hex (c # cs) = of_hex cs @ nib c"

definition sha_K :: "bits list" where
  "sha_K = map of_hex [
   ''428a2f98'', ''71374491'', ''b5c0fbcf'', ''e9b5dba5'', ''3956c25b'', ''59f111f1'', ''923f82a4'', ''ab1c5ed5'',
   ''d807aa98'', ''12835b01'', ''243185be'', ''550c7dc3'', ''72be5d74'', ''80deb1fe'', ''9bdc06a7'', ''c19bf174'',
   ''e49b69c1'', ''efbe4786'', ''0fc19dc6'', ''240ca1cc'', ''2de92c6f'', ''4a7484aa'', ''5cb0a9dc'', ''76f988da'',
   ''983e5152'', ''a831c66d'', ''b00327c8'', ''bf597fc7'', ''c6e00bf3'', ''d5a79147'', ''06ca6351'', ''14292967'',
   ''27b70a85'', ''2e1b2138'', ''4d2c6dfc'', ''53380d13'', ''650a7354'', ''766a0abb'', ''81c2c92e'', ''92722c85'',
   ''a2bfe8a1'', ''a81a664b'', ''c24b8b70'', ''c76c51a3'', ''d192e819'', ''d6990624'', ''f40e3585'', ''106aa070'',
   ''19a4c116'', ''1e376c08'', ''2748774c'', ''34b0bcb5'', ''391c0cb3'', ''4ed8aa4a'', ''5b9cca4f'', ''682e6ff3'',
   ''748f82ee'', ''78a5636f'', ''84c87814'', ''8cc70208'', ''90befffa'', ''a4506ceb'', ''bef9a3f7'', ''c67178f2'']"

definition sha_H0 :: "bits list" where
  "sha_H0 = map of_hex [''6a09e667'', ''bb67ae85'', ''3c6ef372'', ''a54ff53a'',
                        ''510e527f'', ''9b05688c'', ''1f83d9ab'', ''5be0cd19'']"

definition compress :: "bits list \<Rightarrow> bits list \<Rightarrow> bits list" where
  "compress st blk = map2 add32 st (rounds st blk sha_K)"

fun bits_of_char :: "char \<Rightarrow> bits" where
  "bits_of_char (Char b0 b1 b2 b3 b4 b5 b6 b7) = [b0, b1, b2, b3, b4, b5, b6, b7]"

fun be_words :: "string \<Rightarrow> bits list" where
  "be_words (a # b # c # d # bs) =
     (bits_of_char d @ bits_of_char c @ bits_of_char b @ bits_of_char a) # be_words bs"
| "be_words _ = []"

fun sha_blocks :: "bits list \<Rightarrow> bits list \<Rightarrow> bits list" where
  "sha_blocks st (w0 # w1 # w2 # w3 # w4 # w5 # w6 # w7 # w8 # w9 # w10 # w11 # w12 # w13 # w14 # w15 # ws) =
     sha_blocks (compress st [w0, w1, w2, w3, w4, w5, w6, w7, w8, w9, w10, w11, w12, w13, w14, w15]) ws"
| "sha_blocks st _ = st"

fun inc :: "bits \<Rightarrow> bits" where
  "inc [] = []"
| "inc (False # bs) = True # bs"
| "inc (True # bs) = False # inc bs"

fun bytes_of_bits :: "bits \<Rightarrow> string" where
  "bytes_of_bits (b0 # b1 # b2 # b3 # b4 # b5 # b6 # b7 # bs) = bytes_of_bits bs @ [Char b0 b1 b2 b3 b4 b5 b6 b7]"
| "bytes_of_bits _ = []"

definition len_field :: "string \<Rightarrow> string" where
  "len_field m = bytes_of_bits (take 64 ([False, False, False] @ foldr (\<lambda>_. inc) m (replicate 64 False)))"

definition pad :: "string \<Rightarrow> string" where
  "pad m = m @ [CHR 0x80] @ replicate ((119 - length m mod 64) mod 64) (CHR 0x00) @ len_field m"

fun hex_digit :: "bool \<Rightarrow> bool \<Rightarrow> bool \<Rightarrow> bool \<Rightarrow> char" where
  "hex_digit False False False False = CHR ''0''"
| "hex_digit True False False False = CHR ''1''"
| "hex_digit False True False False = CHR ''2''"
| "hex_digit True True False False = CHR ''3''"
| "hex_digit False False True False = CHR ''4''"
| "hex_digit True False True False = CHR ''5''"
| "hex_digit False True True False = CHR ''6''"
| "hex_digit True True True False = CHR ''7''"
| "hex_digit False False False True = CHR ''8''"
| "hex_digit True False False True = CHR ''9''"
| "hex_digit False True False True = CHR ''a''"
| "hex_digit True True False True = CHR ''b''"
| "hex_digit False False True True = CHR ''c''"
| "hex_digit True False True True = CHR ''d''"
| "hex_digit False True True True = CHR ''e''"
| "hex_digit True True True True = CHR ''f''"

fun hex_of :: "bits \<Rightarrow> string" where
  "hex_of (b0 # b1 # b2 # b3 # bs) = hex_of bs @ [hex_digit b0 b1 b2 b3]"
| "hex_of _ = []"

definition sha256_hex :: "string \<Rightarrow> string" where
  "sha256_hex m = concat (map hex_of (sha_blocks sha_H0 (be_words (pad m))))"

section \<open>Configuration (config.py)\<close>

definition CHUNK_SIZE :: nat where
  "CHUNK_SIZE = 1024"

definition DIFFICULTY :: nat where
  "DIFFICULTY = 3"

definition MAX_NONCE :: nat where
  "MAX_NONCE = 1000000"

section \<open>Python helpers\<close>

text \<open>\<^verbatim>\<open>str(n)\<close> for an integer: decimal digits, with a minus sign for negative values.\<close>

definition digit_char :: "nat \<Rightarrow> char" where
  "digit_char d = ''0123456789'' ! d"

fun str_nat :: "nat \<Rightarrow> string" where
  "str_nat n = (if n < 10 then [digit_char n] else str_nat (n div 10) @ [digit_char (n mod 10)])"

declare str_nat.simps [simp del]

definition str_int :: "int \<Rightarrow> string" where
  "str_int i = (if i < 0 then CHR ''-'' # str_nat (nat (- i)) else str_nat (nat i))"

text \<open>\<^verbatim>\<open>s.startswith(p)\<close>\<close>

definition startswith :: "string \<Rightarrow> string \<Rightarrow> bool" where
  "startswith s p = (take (length p) s = p)"

text \<open>
  \<^verbatim>\<open>range(0, stop, step)\<close> for \<open>stop \<ge> 0\<close>; Python raises \<^verbatim>\<open>ValueError\<close> when the
  step is zero.
\<close>

definition range_step :: "nat \<Rightarrow> nat \<Rightarrow> nat list option" where
  "range_step stop step =
     (if step = 0 then None else Some (map (\<lambda>k. k * step) [0..<(stop + step - 1) div step]))"

text \<open>The exceptions that the modelled code can raise.\<close>

datatype errno = ENOENT | EIO | ENOSYS | EPERM

datatype exn = FuseOSError errno | AttributeError | ValueError

section \<open>Blocks and the chain (blockchain.py)\<close>

record block =
  index :: int
  timestamp :: string
  filename :: string
  file_size :: int
  chunk_hash :: string
  ipfs_hash :: string
  previous_hash :: string
  nonce :: int
  hash :: string

definition calculate_hash :: "block \<Rightarrow> string" where
  "calculate_hash b =
     sha256_hex (str_int (index b) @ timestamp b @ filename b @ str_int (file_size b) @
                 chunk_hash b @ ipfs_hash b @ previous_hash b @ str_int (nonce b))"

text \<open>
  \<^verbatim>\<open>create_genesis_block\<close>; the argument is the value that \<^verbatim>\<open>datetime.now().isoformat()\<close>
  returns. Persisting the chain to its JSON file does not change the chain in memory
  (\<^verbatim>\<open>save_blockchain\<close> catches every exception) and is left out.
\<close>

definition create_genesis_block :: "string \<Rightarrow> block" where
  "create_genesis_block now =
     (let genesis_block = \<lparr>index = 0, timestamp = now, filename = ''GENESIS'', file_size = 0,
                            chunk_hash = replicate 64 (CHR ''0''), ipfs_hash = '''',
                            previous_hash = replicate 64 (CHR ''0''), nonce = 0, hash = ''''\<rparr>
      in genesis_block\<lparr>hash := calculate_hash genesis_block\<rparr>)"

text \<open>
  \<^verbatim>\<open>proof_of_work\<close>: the loop over \<^verbatim>\<open>range(MAX_NONCE)\<close> writes each candidate into the
  block's nonce field before hashing, and returns at the first hit. The model returns the
  result together with the block as the loop leaves it.
\<close>

fun pow_loop :: "block \<Rightarrow> nat list \<Rightarrow> block \<times> nat option" where
  "pow_loop b [] = (b, None)"
| "pow_loop b (n # ns) =
     (let b' = b\<lparr>nonce := int n\<rparr>;
          hash_result = calculate_hash b'
      in if startswith hash_result (replicate DIFFICULTY (CHR ''0'')) then (b', Some n)
         else pow_loop b' ns)"

definition proof_of_work :: "block \<Rightarrow> int \<times> block" where
  "proof_of_work b =
     (case pow_loop b [0..<MAX_NONCE] of
        (b', Some n) \<Rightarrow> (int n, b')
      | (b', None) \<Rightarrow> (0, b'))"

definition get_latest_block :: "block list \<Rightarrow> block option" where
  "get_latest_block chain = (if chain \<noteq> [] then Some (last chain) else None)"

text \<open>
  \<^verbatim>\<open>add_block\<close>: on an empty chain \<^verbatim>\<open>previous_block\<close> is \<^verbatim>\<open>None\<close> and reading its
  hash raises \<^verbatim>\<open>AttributeError\<close>. The first argument is the timestamp read from the clock.
\<close>

definition add_block ::
  "string \<Rightarrow> string \<Rightarrow> int \<Rightarrow> string \<Rightarrow> string \<Rightarrow> block list \<Rightarrow> exn + block \<times> block list" where
  "add_block now fname fsize chash ihash chain =
     (case get_latest_block chain of
        None \<Rightarrow> Inl AttributeError
      | Some previous_block \<Rightarrow>
          (let new_block = \<lparr>index = int (length chain), timestamp = now, filename = fname,
                             file_size = fsize, chunk_hash = chash, ipfs_hash = ihash,
                             previous_hash = hash previous_block, nonce = 0, hash = ''''\<rparr>;
               (n, mined) = proof_of_work new_block;
               new_block = mined\<lparr>nonce := n\<rparr>;
               new_block = new_block\<lparr>hash := calculate_hash new_block\<rparr>
           in Inr (new_block, chain @ [new_block])))"

definition get_file_blocks :: "string \<Rightarrow> block list \<Rightarrow> block list" where
  "get_file_blocks fname chain = filter (\<lambda>b. filename b = fname) chain"

text \<open>\<^verbatim>\<open>validate_chain\<close>: the loop over \<^verbatim>\<open>range(1, len(self.chain))\<close> with its early returns.\<close>

fun validate_loop :: "block list \<Rightarrow> nat list \<Rightarrow> bool" where
  "validate_loop chain [] = True"
| "validate_loop chain (i # is) =
     (let current_block = chain ! i;
          previous_block = chain ! (i - 1)
      in if hash current_block \<noteq> calculate_hash current_block then False
         else if previous_hash current_block \<noteq> hash previous_block then False
         else if \<not> startswith (hash current_block) (replicate DIFFICULTY (CHR ''0'')) then False
         else validate_loop chain is)"

definition validate_chain :: "block list \<Rightarrow> bool" where
  "validate_chain chain = validate_loop chain [1..<length chain]"

fun detect_loop :: "block list \<Rightarrow> int list \<Rightarrow> int list" where
  "detect_loop [] tampered_blocks = tampered_blocks"
| "detect_loop (b # bs) tampered_blocks =
     detect_loop bs (if hash b \<noteq> calculate_hash b then tampered_blocks @ [index b]
                     else tampered_blocks)"

definition detect_tampering :: "string \<Rightarrow> block list \<Rightarrow> int list" where
  "detect_tampering fname chain = detect_loop (get_file_blocks fname chain) []"

section \<open>The content store (ipfs_client.py)\<close>

text \<open>
  The IPFS daemon is outside the program. A client is given by what its two calls return:
  \<^verbatim>\<open>upload_chunk\<close> yields the address (or \<^verbatim>\<open>None\<close> on any failure) and the store's next
  state; \<^verbatim>\<open>download_chunk\<close> yields the bytes found at an address (or \<^verbatim>\<open>None\<close>).
\<close>

record 's ipfs_client =
  upload_chunk :: "string \<Rightarrow> 's \<Rightarrow> string option \<times> 's"
  download_chunk :: "string \<Rightarrow> 's \<Rightarrow> string option"

definition verify_chunk :: "string \<Rightarrow> string \<Rightarrow> bool" where
  "verify_chunk chunk_data expected_hash =
     (let actual_hash = sha256_hex chunk_data in actual_hash = expected_hash)"

section \<open>The filesystem operations (main.py)\<close>

text \<open>
  The state that \<^verbatim>\<open>read\<close> and \<^verbatim>\<open>write\<close> work on: the global chain, the content store, and
  the in-memory size table \<^verbatim>\<open>self.files\<close> (its time fields are always 0).
\<close>

record 's fs =
  chain :: "block list"
  store :: 's
  files :: "string \<rightharpoonup> nat"

text \<open>The chunk loop of \<^verbatim>\<open>write\<close>: \<^verbatim>\<open>data[i:i + n]\<close> for \<^verbatim>\<open>i\<close> in \<^verbatim>\<open>range(0, len(data), n)\<close>.\<close>

definition split_chunks :: "nat \<Rightarrow> string \<Rightarrow> string list option" where
  "split_chunks n data =
     map_option (map (\<lambda>i. take n (drop i data))) (range_step (length data) n)"

text \<open>
  The second loop of \<^verbatim>\<open>write\<close>. \<open>now k\<close> is the clock reading taken while the block for
  chunk number \<open>k\<close> is built. The chain and the store are returned on failure too: what was
  appended before an exception stays appended.
\<close>

fun write_chunks ::
  "'s ipfs_client \<Rightarrow> (nat \<Rightarrow> string) \<Rightarrow> string \<Rightarrow> string list \<Rightarrow> nat \<Rightarrow> block list \<Rightarrow> 's \<Rightarrow>
     (exn + nat) \<times> block list \<times> 's" where
  "write_chunks cl now fname [] chunk_count ch st = (Inr chunk_count, ch, st)"
| "write_chunks cl now fname (chunk # chunks) chunk_count ch st =
     (let chash = sha256_hex chunk in
      case upload_chunk cl chunk st of
        (None, st') \<Rightarrow> (Inl (FuseOSError EIO), ch, st')
      | (Some ihash, st') \<Rightarrow>
          (case add_block (now chunk_count) fname (int (length chunk)) chash ihash ch of
             Inl e \<Rightarrow> (Inl e, ch, st')
           | Inr (b, ch') \<Rightarrow> write_chunks cl now fname chunks (chunk_count + 1) ch' st'))"

text \<open>The body of the \<^verbatim>\<open>try\<close> block of \<^verbatim>\<open>write\<close>.\<close>

definition write_body ::
  "'s ipfs_client \<Rightarrow> (nat \<Rightarrow> string) \<Rightarrow> string \<Rightarrow> string \<Rightarrow> nat \<Rightarrow> 's fs \<Rightarrow> (exn + nat) \<times> 's fs" where
  "write_body cl now fname data offset s =
     (if offset \<noteq> 0 then (Inl (FuseOSError ENOSYS), s)
      else case split_chunks CHUNK_SIZE data of
        None \<Rightarrow> (Inl ValueError, s)
      | Some chunks \<Rightarrow>
          (case write_chunks cl now fname chunks 0 (chain s) (store s) of
             (Inl e, ch', st') \<Rightarrow> (Inl e, s\<lparr>chain := ch', store := st'\<rparr>)
           | (Inr chunk_count, ch', st') \<Rightarrow>
               (Inr (length data),
                s\<lparr>chain := ch', store := st', files := (files s)(fname \<mapsto> length data)\<rparr>)))"

text \<open>
  \<^verbatim>\<open>BlockchainFUSE.write\<close>: \<^verbatim>\<open>except Exception\<close> catches whatever the body raised, \<^verbatim>\<open>FuseOSError\<close>
  included, and raises \<^verbatim>\<open>FuseOSError(errno.EIO)\<close>.
\<close>

definition write_fuse ::
  "'s ipfs_client \<Rightarrow> (nat \<Rightarrow> string) \<Rightarrow> string \<Rightarrow> string \<Rightarrow> nat \<Rightarrow> 's fs \<Rightarrow> (exn + nat) \<times> 's fs" where
  "write_fuse cl now path data offset s =
     (let fname = drop 1 path in
      case write_body cl now fname data offset s of
        (Inl e, s') \<Rightarrow> (Inl (FuseOSError EIO), s')
      | (Inr n, s') \<Rightarrow> (Inr n, s'))"

text \<open>The reconstruction loop of \<^verbatim>\<open>read\<close>.\<close>

fun read_chunks :: "'s ipfs_client \<Rightarrow> 's \<Rightarrow> block list \<Rightarrow> string \<Rightarrow> exn + string" where
  "read_chunks cl st [] file_data = Inr file_data"
| "read_chunks cl st (b # bs) file_data =
     (case download_chunk cl (ipfs_hash b) st of
        None \<Rightarrow> Inl (FuseOSError EIO)
      | Some chunk_data \<Rightarrow>
          if \<not> verify_chunk chunk_data (chunk_hash b) then Inl (FuseOSError EIO)
          else read_chunks cl st bs (file_data @ chunk_data))"

text \<open>
  The body of the \<^verbatim>\<open>try\<close> block of \<^verbatim>\<open>read\<close>. \<^verbatim>\<open>size\<close> and \<^verbatim>\<open>offset\<close> come from the
  kernel and are never negative, so the final slice is \<open>take\<close> after \<open>drop\<close>.
  \<^verbatim>\<open>list.sort\<close> is stable, as \<^const>\<open>sort_key\<close> is.
\<close>

definition read_body :: "'s ipfs_client \<Rightarrow> string \<Rightarrow> nat \<Rightarrow> nat \<Rightarrow> 's fs \<Rightarrow> exn + string" where
  "read_body cl fname sz offset s =
     (let file_blocks = get_file_blocks fname (chain s) in
      if file_blocks = [] then Inl (FuseOSError ENOENT)
      else
        (let file_blocks = sort_key index file_blocks;
             tampered_blocks = detect_tampering fname (chain s)
         in if tampered_blocks \<noteq> [] then Inl (FuseOSError EIO)
            else case read_chunks cl (store s) file_blocks [] of
              Inl e \<Rightarrow> Inl e
            | Inr file_data \<Rightarrow> Inr (take sz (drop offset file_data))))"

definition read_fuse :: "'s ipfs_client \<Rightarrow> string \<Rightarrow> nat \<Rightarrow> nat \<Rightarrow> 's fs \<Rightarrow> exn + string" where
  "read_fuse cl path sz offset s =
     (let fname = drop 1 path in
      case read_body cl fname sz offset s of
        Inl e \<Rightarrow> Inl (FuseOSError EIO)
      | Inr data \<Rightarrow> Inr data)"

section \<open>Notions used in the properties\<close>

text \<open>A nonce seals a block when the hash computed with it carries the proof-of-work prefix.\<close>

definition pow_ok :: "block \<Rightarrow> nat \<Rightarrow> bool" where
  "pow_ok b n = startswith (calculate_hash (b\<lparr>nonce := int n\<rparr>)) (replicate DIFFICULTY (CHR ''0''))"

text \<open>What \<^verbatim>\<open>add_block\<close> makes of a candidate block: the mined nonce, then the final hash.\<close>

definition sealed :: "block \<Rightarrow> block" where
  "sealed nb = (let b = nb\<lparr>nonce := fst (proof_of_work nb)\<rparr> in b\<lparr>hash := calculate_hash b\<rparr>)"

text \<open>
  Chain validity as the specification words it: every block's stored hash is its recomputed
  hash, every block that has a predecessor links to it, and every hash carries the
  proof-of-work prefix.
\<close>

definition validate_spec :: "block list \<Rightarrow> bool" where
  "validate_spec c =
     list_all (\<lambda>i. hash (c ! i) = calculate_hash (c ! i) \<and>
                    (0 < i \<longrightarrow> previous_hash (c ! i) = hash (c ! (i - 1))) \<and>
                    startswith (hash (c ! i)) (replicate DIFFICULTY (CHR ''0'')))
              [0..<length c]"

text \<open>The structural invariants of a chain: positions are indices, and each block links back.\<close>

definition chain_inv :: "block list \<Rightarrow> bool" where
  "chain_inv c =
     list_all (\<lambda>i. index (c ! i) = int i \<and> (0 < i \<longrightarrow> previous_hash (c ! i) = hash (c ! (i - 1))))
              [0..<length c]"


section \<open>Concrete stores and chains\<close>

text \<open>
  An in-memory content store: the address of a chunk is \<open>Qm\<close> followed by its bytes, and a
  download returns what the table holds at the address.
\<close>

definition mem_ipfs :: "(string \<rightharpoonup> string) ipfs_client" where
  "mem_ipfs = \<lparr>upload_chunk = (\<lambda>d m. (Some (''Qm'' @ d), m(''Qm'' @ d \<mapsto> d))),
               download_chunk = (\<lambda>a m. m a)\<rparr>"


definition clock0 :: "nat \<Rightarrow> string" where
  "clock0 k = ''2024-01-01T00:00:01''"

definition genesis0 :: block where
  "genesis0 = create_genesis_block ''2024-01-01T00:00:00''"

text \<open>The block for the 5-byte chunk \<open>hello\<close> of file \<open>f\<close>, before mining.\<close>

definition candidate1 :: block where
  "candidate1 = \<lparr>index = 1, timestamp = ''2024-01-01T00:00:01'', filename = ''f'', file_size = 5,
     chunk_hash = ''2cf24dba5fb0a30e26e83b2ac5b9e29e1b161e5c1fa7425e73043362938b9824'',
     ipfs_hash = ''Qmhello'',
     previous_hash = ''43073ee54f92a0325992b543b3761a1b716c1fdf22750e164aada937c37d8ff3'',
     nonce = 0, hash = ''''\<rparr>"

definition block1 :: block where
  "block1 = candidate1\<lparr>nonce := 78,
     hash := ''000a8eb7c3c3ca2d1b73c6be16ba841f06a3ee05f5cc660323764e647a519232''\<rparr>"

definition fresh_fs :: "(string \<rightharpoonup> string) fs" where
  "fresh_fs = \<lparr>chain = [genesis0], store = Map.empty, files = Map.empty\<rparr>"

text \<open>The state after writing \<open>a\<close> to \<open>/f\<close>, and after then writing \<open>b\<close> to the same path.\<close>

definition written_once :: "(string \<rightharpoonup> string) fs" where
  "written_once = snd (write_fuse mem_ipfs clock0 ''/f'' ''a'' 0 fresh_fs)"

definition written_twice :: "(string \<rightharpoonup> string) fs" where
  "written_twice = snd (write_fuse mem_ipfs clock0 ''/f'' ''b'' 0 written_once)"


text \<open>File \<open>f\<close> on the chain, with the bytes behind its chunk's address replaced.\<close>

definition corrupted_fs :: "(string \<rightharpoonup> string) fs" where
  "corrupted_fs = \<lparr>chain = [genesis0, block1], store = [''Qmhello'' \<mapsto> ''jello''],
                    files = Map.empty\<rparr>"

text \<open>
  The chunks of \<open>hello world\<close> for chunk size 4, as blocks of a file \<open>g\<close> and as the
  content of the in-memory store.
\<close>

definition hello_blocks :: "block list" where
  "hello_blocks =
     [\<lparr>index = 1, timestamp = ''2024-01-01T00:00:01'', filename = ''g'', file_size = 4,
       chunk_hash = sha256_hex ''hell'', ipfs_hash = ''Qmhell'', previous_hash = '''',
       nonce = 0, hash = ''''\<rparr>,
      \<lparr>index = 2, timestamp = ''2024-01-01T00:00:01'', filename = ''g'', file_size = 4,
       chunk_hash = sha256_hex ''o wo'', ipfs_hash = ''Qmo wo'', previous_hash = '''',
       nonce = 0, hash = ''''\<rparr>,
      \<lparr>index = 3, timestamp = ''2024-01-01T00:00:01'', filename = ''g'', file_size = 3,
       chunk_hash = sha256_hex ''rld'', ipfs_hash = ''Qmrld'', previous_hash = '''',
       nonce = 0, hash = ''''\<rparr>]"

definition hello_store :: "string \<rightharpoonup> string" where
  "hello_store = [''Qmhell'' \<mapsto> ''hell'', ''Qmo wo'' \<mapsto> ''o wo'', ''Qmrld'' \<mapsto> ''rld'']"

section \<open>Basic facts about hashing and mining\<close>

lemma calculate_hash_hash_update [simp]: "calculate_hash (b\<lparr>hash := h\<rparr>) = calculate_hash b"
  by (simp add: calculate_hash_def)

lemma pow_ok_nonce_update [simp]: "pow_ok (b\<lparr>nonce := x\<rparr>) n = pow_ok b n"
  by (simp add: pow_ok_def)

lemma pow_ok_hash_update [simp]: "pow_ok (b\<lparr>hash := h\<rparr>) n = pow_ok b n"
  by (simp add: pow_ok_def calculate_hash_def)

lemma pow_loop_find: "snd (pow_loop b ns) = find (pow_ok b) ns"
proof (induction ns arbitrary: b)
  case Nil
  show ?case by simp
next
  case (Cons n ns)
  show ?case
    using Cons.IH [of "b\<lparr>nonce := int n\<rparr>"]
    by (simp add: Let_def pow_ok_def)
qed

lemma pow_loop_block: "(fst (pow_loop b ns))\<lparr>nonce := x\<rparr> = b\<lparr>nonce := x\<rparr>"
proof (induction ns arbitrary: b)
  case Nil
  show ?case by simp
next
  case (Cons n ns)
  show ?case
    using Cons.IH [of "b\<lparr>nonce := int n\<rparr>"]
    by (simp add: Let_def)
qed

lemma fst_proof_of_work:
  "fst (proof_of_work b) = (case find (pow_ok b) [0..<MAX_NONCE] of Some n \<Rightarrow> int n | None \<Rightarrow> 0)"
proof (cases "pow_loop b [0..<MAX_NONCE]")
  case (Pair b' r)
  then have "find (pow_ok b) [0..<MAX_NONCE] = r"
    using pow_loop_find [of b "[0..<MAX_NONCE]"] by simp
  then show ?thesis
    using Pair by (simp add: proof_of_work_def split: option.splits)
qed

lemma snd_proof_of_work: "(snd (proof_of_work b))\<lparr>nonce := x\<rparr> = b\<lparr>nonce := x\<rparr>"
proof (cases "pow_loop b [0..<MAX_NONCE]")
  case (Pair b' r)
  then have "b'\<lparr>nonce := x\<rparr> = b\<lparr>nonce := x\<rparr>"
    using pow_loop_block [where b = b and ns = "[0..<MAX_NONCE]" and x = x] by simp
  then show ?thesis
    using Pair by (simp add: proof_of_work_def split: option.splits)
qed

lemma find_upt_least:
  assumes "n < m" "P n"
  shows "\<exists>r. find P [0..<m] = Some r \<and> r \<le> n \<and> P r \<and> (\<forall>j<r. \<not> P j)"
proof -
  have "find P [0..<m] \<noteq> None"
    using assms by (auto simp: find_None_iff)
  then obtain r where r: "find P [0..<m] = Some r" by auto
  then obtain i where i: "i < m" "P ([0..<m] ! i)" "r = [0..<m] ! i" "\<forall>j<i. \<not> P ([0..<m] ! j)"
    by (auto simp: find_Some_iff)
  then have ri: "r = i" by simp
  have "P r" using i ri by simp
  moreover have "\<forall>j<r. \<not> P j" using i ri by auto
  moreover have "r \<le> n" using assms \<open>\<forall>j<r. \<not> P j\<close> by (meson not_le)
  ultimately show ?thesis using r by blast
qed

subsection \<open>Digests of the concrete blocks\<close>

lemma block1_hash:
  "calculate_hash block1 = ''000a8eb7c3c3ca2d1b73c6be16ba841f06a3ee05f5cc660323764e647a519232''"
  by code_simp

lemma pow_ok_candidate1: "pow_ok candidate1 78"
proof -
  have "candidate1\<lparr>nonce := int 78\<rparr> = block1\<lparr>hash := ''''\<rparr>"
    by (simp add: block1_def candidate1_def)
  then have "calculate_hash (candidate1\<lparr>nonce := int 78\<rparr>) = calculate_hash block1"
    by simp
  then show ?thesis
    by (simp add: pow_ok_def block1_hash startswith_def DIFFICULTY_def numeral_3_eq_3)
qed

section \<open>Proof of work\<close>

text \<open>
  Claim C5. \<^verbatim>\<open>proof_of_work\<close> returns the smallest nonce below \<open>MAX_NONCE\<close> whose hash has
  \<open>DIFFICULTY\<close> leading zero digits: whenever some nonce \<open>n\<close> in range seals the block, the
  result is a sealing nonce \<open>r \<le> n\<close> below which no nonce seals. It returns 0 when no nonce
  in range seals the block. The result does not depend on the nonce and hash fields that the
  block carries on entry.
\<close>

theorem proof_of_work_smallest:
  "(n < MAX_NONCE \<and> pow_ok b n \<longrightarrow>
      (\<exists>r. fst (proof_of_work b) = int r \<and> r \<le> n \<and> r < MAX_NONCE \<and> pow_ok b r \<and> (\<forall>m<r. \<not> pow_ok b m)))
   \<and> ((\<forall>m<MAX_NONCE. \<not> pow_ok b m) \<longrightarrow> fst (proof_of_work b) = 0)
   \<and> fst (proof_of_work (b\<lparr>nonce := x, hash := y\<rparr>)) = fst (proof_of_work b)"
proof (intro conjI impI)
  assume a: "n < MAX_NONCE \<and> pow_ok b n"
  then obtain r where "find (pow_ok b) [0..<MAX_NONCE] = Some r" "r \<le> n" "pow_ok b r"
      "\<forall>j<r. \<not> pow_ok b j"
    using find_upt_least [of n MAX_NONCE "pow_ok b"] by blast
  then show "\<exists>r. fst (proof_of_work b) = int r \<and> r \<le> n \<and> r < MAX_NONCE \<and> pow_ok b r \<and> (\<forall>m<r. \<not> pow_ok b m)"
    using a by (auto simp: fst_proof_of_work)
next
  assume "\<forall>m<MAX_NONCE. \<not> pow_ok b m"
  then have "find (pow_ok b) [0..<MAX_NONCE] = None"
    by (auto simp: find_None_iff)
  then show "fst (proof_of_work b) = 0"
    by (simp add: fst_proof_of_work)
next
  have "pow_ok (b\<lparr>nonce := x, hash := y\<rparr>) = pow_ok b"
    by (rule ext) simp
  then show "fst (proof_of_work (b\<lparr>nonce := x, hash := y\<rparr>)) = fst (proof_of_work b)"
    by (simp add: fst_proof_of_work)
qed

theorem proof_of_work_smallest_witness:
  "(78::nat) < MAX_NONCE \<and> pow_ok candidate1 78 \<and>
   (\<exists>r. fst (proof_of_work candidate1) = int r \<and> r \<le> 78 \<and> r < MAX_NONCE \<and> pow_ok candidate1 r \<and>
        (\<forall>m<r. \<not> pow_ok candidate1 m))"
proof -
  have h: "(78::nat) < MAX_NONCE \<and> pow_ok candidate1 78"
    using pow_ok_candidate1 by (simp add: MAX_NONCE_def)
  show ?thesis
    using h proof_of_work_smallest [where n = 78 and b = candidate1] by blast
qed

section \<open>Chain validation\<close>

lemma genesis0_hash:
  "hash genesis0 = ''43073ee54f92a0325992b543b3761a1b716c1fdf22750e164aada937c37d8ff3''"
  by code_simp

lemma validate_loop_iff:
  "validate_loop c is \<longleftrightarrow>
     (\<forall>i\<in>set is. hash (c ! i) = calculate_hash (c ! i) \<and>
                 previous_hash (c ! i) = hash (c ! (i - 1)) \<and>
                 startswith (hash (c ! i)) (replicate DIFFICULTY (CHR ''0'')))"
  by (induction "is") (auto simp: Let_def)

lemma validate_loop_ignores_head:
  assumes "hash g' = hash g" and "\<forall>i\<in>set is. 1 \<le> i"
  shows "validate_loop (g' # rest) is = validate_loop (g # rest) is"
  using assms(2)
proof (induction "is")
  case Nil
  show ?case by simp
next
  case (Cons i "is")
  then have i: "1 \<le> i" and IH: "validate_loop (g' # rest) is = validate_loop (g # rest) is"
    by simp_all
  have cur: "(g' # rest) ! i = (g # rest) ! i"
    using i by (simp add: nth_Cons')
  have prev: "hash ((g' # rest) ! (i - 1)) = hash ((g # rest) ! (i - 1))"
    using assms(1) by (simp add: nth_Cons')
  show ?case
    using cur prev IH by (simp add: Let_def)
qed

lemma validate_chain_example: "validate_chain [genesis0, block1]"
proof -
  have "hash block1 = calculate_hash block1"
    by (simp add: block1_hash) (simp add: block1_def)
  moreover have "previous_hash block1 = hash genesis0"
    by (simp add: genesis0_hash) (simp add: block1_def candidate1_def)
  moreover have "startswith (hash block1) (replicate DIFFICULTY (CHR ''0''))"
    by (simp add: block1_def startswith_def DIFFICULTY_def numeral_3_eq_3)
  ultimately show ?thesis
    by (simp add: validate_chain_def)
qed

text \<open>
  Claim C2, as stated: \<^verbatim>\<open>validate_chain\<close> holds exactly when every block, the genesis block
  included, has a matching stored hash, a matching back link (where it has a predecessor)
  and the proof-of-work prefix. The chain that a fresh start creates refutes it: the loop
  starts at position 1, so the chain validates, while the genesis hash is not mined and does
  not begin with three zeros.
\<close>

theorem validate_spec_counterexample:
  "validate_chain [genesis0] \<and> \<not> validate_spec [genesis0]"
proof -
  have "\<not> startswith (hash genesis0) (replicate DIFFICULTY (CHR ''0''))"
    by (simp add: genesis0_hash startswith_def DIFFICULTY_def numeral_3_eq_3)
  then show ?thesis
    by (simp add: validate_chain_def validate_spec_def)
qed

text \<open>
  Claim C2, amended: \<^verbatim>\<open>validate_chain\<close> holds exactly when every block at a position from 1
  on has a stored hash equal to its recomputed hash, a previous-hash field equal to the
  stored hash of the block before it, and a hash that begins with \<open>DIFFICULTY\<close> zero digits.
  Nothing is required of the genesis block's own hash.
\<close>

theorem validate_chain_iff:
  "validate_chain c \<longleftrightarrow>
     (\<forall>i. 1 \<le> i \<and> i < length c \<longrightarrow>
          hash (c ! i) = calculate_hash (c ! i) \<and>
          previous_hash (c ! i) = hash (c ! (i - 1)) \<and>
          startswith (hash (c ! i)) (replicate DIFFICULTY (CHR ''0'')))"
  by (auto simp: validate_chain_def validate_loop_iff)

theorem validate_chain_iff_witness:
  "validate_chain [genesis0, block1] \<and> (1::nat) \<le> 1 \<and> 1 < length [genesis0, block1] \<and>
   hash ([genesis0, block1] ! 1) = calculate_hash ([genesis0, block1] ! 1) \<and>
   previous_hash ([genesis0, block1] ! 1) = hash ([genesis0, block1] ! (1 - 1)) \<and>
   startswith (hash ([genesis0, block1] ! 1)) (replicate DIFFICULTY (CHR ''0''))"
proof -
  have v: "validate_chain [genesis0, block1]"
    by (rule validate_chain_example)
  have r: "(1::nat) \<le> 1 \<and> 1 < length [genesis0, block1]"
    by simp
  show ?thesis
    using v r validate_chain_iff [THEN iffD1, OF v, rule_format, OF r] by blast
qed

text \<open>
  Claim C10. Validation reads the genesis block only through its stored hash, in the link
  check of the block at position 1: replacing the first block by any block with the same
  stored hash leaves the result of \<^verbatim>\<open>validate_chain\<close> unchanged.
\<close>

theorem validate_chain_ignores_genesis:
  assumes "hash g' = hash g"
  shows "validate_chain (g' # rest) = validate_chain (g # rest)"
proof -
  have "\<forall>i\<in>set [1..<length (g # rest)]. 1 \<le> i"
    by (metis atLeastLessThan_iff set_upt)
  then have "validate_loop (g' # rest) [1..<length (g # rest)] =
             validate_loop (g # rest) [1..<length (g # rest)]"
    using assms by (rule validate_loop_ignores_head [rotated])
  then show ?thesis
    by (simp only: validate_chain_def list.size)
qed

theorem validate_chain_ignores_genesis_witness:
  "hash (genesis0\<lparr>filename := ''x'', nonce := 7\<rparr>) = hash genesis0 \<and>
   validate_chain [genesis0\<lparr>filename := ''x'', nonce := 7\<rparr>, block1] = validate_chain [genesis0, block1] \<and>
   validate_chain [genesis0\<lparr>filename := ''x'', nonce := 7\<rparr>, block1]"
proof -
  have h: "hash (genesis0\<lparr>filename := ''x'', nonce := 7\<rparr>) = hash genesis0"
    by simp
  show ?thesis
    using h validate_chain_ignores_genesis [OF h, of "[block1]"] validate_chain_example by simp
qed

section \<open>Splitting into chunks and joining them\<close>

lemma concat_slices: "concat (map (\<lambda>k. take n (drop (k * n) xs)) [0..<m]) = take (m * n) xs"
proof (induction m)
  case 0
  show ?case by simp
next
  case (Suc m)
  have "take (m * n) xs @ take n (drop (m * n) xs) = take (m * n + n) xs"
    by (simp add: take_add)
  then show ?case
    using Suc by (simp add: add.commute)
qed

lemma ceil_div_covers: "0 < n \<Longrightarrow> l \<le> ((l + n - 1) div n) * (n::nat)"
proof -
  assume n: "0 < n"
  have "l + n - 1 = ((l + n - 1) div n) * n + (l + n - 1) mod n"
    by simp
  moreover have "(l + n - 1) mod n \<le> n - 1"
    using n by (simp add: less_Suc_eq_le [symmetric] Suc_pred)
  ultimately show ?thesis
    using n by linarith
qed

lemma ceil_div_tight: "0 < n \<Longrightarrow> Suc k < (l + n - 1) div n \<Longrightarrow> Suc k * n < (l::nat)"
proof -
  assume n: "0 < n" and k: "Suc k < (l + n - 1) div n"
  have "Suc (Suc k) * n \<le> ((l + n - 1) div n) * n"
    using k by (simp only: mult_le_mono1 Suc_leI)
  also have "\<dots> \<le> l + n - 1"
    by simp
  finally have "Suc k * n + n \<le> l + n - 1"
    by simp
  then show ?thesis
    using n by linarith
qed

lemma ceil_div_last: "0 < n \<Longrightarrow> k < (l + n - 1) div n \<Longrightarrow> k * n < (l::nat)"
proof -
  assume n: "0 < n" and k: "k < (l + n - 1) div n"
  have "Suc k * n \<le> ((l + n - 1) div n) * n"
    using k by (simp only: mult_le_mono1 Suc_leI)
  also have "\<dots> \<le> l + n - 1"
    by simp
  finally have "k * n + n \<le> l + n - 1"
    by simp
  then show ?thesis
    using n by linarith
qed

lemma ceil_div_dvd: "0 < n \<Longrightarrow> n dvd l \<Longrightarrow> (l + n - 1) div n * n = (l::nat)"
proof -
  assume n: "0 < n" and d: "n dvd l"
  then obtain q where q: "l = n * q" by (auto simp: dvd_def)
  have "(l + n - 1) div n = q"
  proof (rule div_nat_eqI)
    show "n * q \<le> l + n - 1"
      using n q by linarith
    show "l + n - 1 < n * Suc q"
      using n q by simp
  qed
  then show ?thesis
    using q by simp
qed

lemma split_chunks_shape:
  assumes "0 < n"
  shows "\<exists>cs. split_chunks n data = Some cs \<and> concat cs = data \<and>
           (\<forall>i<length cs. 0 < length (cs ! i) \<and> length (cs ! i) \<le> n \<and>
                 (i + 1 < length cs \<longrightarrow> length (cs ! i) = n) \<and>
                 (length (cs ! i) < n \<longrightarrow> i + 1 = length cs \<and> \<not> n dvd length data))"
proof -
  define m where "m = (length data + n - 1) div n"
  define cs where "cs = map (\<lambda>k. take n (drop (k * n) data)) [0..<m]"
  have split: "split_chunks n data = Some cs"
    using assms by (simp add: split_chunks_def range_step_def cs_def m_def comp_def)
  have len: "length cs = m"
    by (simp add: cs_def)
  have "concat cs = take (m * n) data"
    by (simp add: cs_def concat_slices)
  moreover have "length data \<le> m * n"
    unfolding m_def using assms by (rule ceil_div_covers)
  ultimately have join: "concat cs = data"
    by simp
  have each: "0 < length (cs ! i) \<and> length (cs ! i) \<le> n \<and>
              (i + 1 < length cs \<longrightarrow> length (cs ! i) = n) \<and>
              (length (cs ! i) < n \<longrightarrow> i + 1 = length cs \<and> \<not> n dvd length data)"
    if i: "i < length cs" for i
  proof -
    have im: "i < m" using i len by simp
    have ci: "length (cs ! i) = min (length data - i * n) n"
      using im by (simp add: cs_def)
    have pos: "i * n < length data"
      using assms im unfolding m_def by (rule ceil_div_last)
    have full: "length (cs ! i) = n" if "i + 1 < length cs"
    proof -
      have "Suc i * n < length data"
        using assms that len unfolding m_def by (intro ceil_div_tight) simp_all
      then show ?thesis
        using ci by simp
    qed
    have short: "i + 1 = length cs \<and> \<not> n dvd length data" if s: "length (cs ! i) < n"
    proof -
      have last: "i + 1 = length cs"
        using full s i by (cases "i + 1 < length cs") auto
      have "\<not> n dvd length data"
      proof
        assume "n dvd length data"
        with assms have "m * n = length data"
          unfolding m_def by (rule ceil_div_dvd)
        then have "length data - i * n = n"
          using last len by (simp add: algebra_simps) (metis add_diff_cancel_left' mult_Suc add.commute)
        then show False
          using s ci by simp
      qed
      then show ?thesis
        using last by simp
    qed
    show ?thesis
      using assms ci pos full short by auto
  qed
  show ?thesis
    using split join each by blast
qed

lemma read_chunks_all_verified:
  assumes "length bs = length cs"
    and "\<forall>i<length cs. download_chunk cl (ipfs_hash (bs ! i)) st = Some (cs ! i) \<and>
                          chunk_hash (bs ! i) = sha256_hex (cs ! i)"
  shows "read_chunks cl st bs acc = Inr (acc @ concat cs)"
  using assms
proof (induction bs arbitrary: cs acc)
  case Nil
  then show ?case by simp
next
  case (Cons b bs)
  then obtain c cs' where cs: "cs = c # cs'"
    by (cases cs) simp_all
  have hd: "download_chunk cl (ipfs_hash b) st = Some c" "chunk_hash b = sha256_hex c"
    using Cons.prems(2) cs by auto
  have "\<forall>i<length cs'. download_chunk cl (ipfs_hash (bs ! i)) st = Some (cs' ! i) \<and>
                          chunk_hash (bs ! i) = sha256_hex (cs' ! i)"
    using Cons.prems(2) cs by auto
  moreover have "length bs = length cs'"
    using Cons.prems(1) cs by simp
  ultimately have "read_chunks cl st bs (acc @ c) = Inr ((acc @ c) @ concat cs')"
    using Cons.IH by blast
  then show ?case
    using hd cs by (simp add: verify_chunk_def)
qed

text \<open>
  Claim C4. For a positive chunk size \<open>n\<close>, splitting succeeds and the chunks concatenate to
  the data. Every chunk is non-empty and at most \<open>n\<close> long; every chunk but the last has
  length exactly \<open>n\<close>; a chunk shorter than \<open>n\<close> can only be the last one, and only when
  \<open>n\<close> does not divide the length of the data. The join is the reconstruction loop of
  \<^verbatim>\<open>read\<close>: run over blocks whose downloads return these chunks, in order, with matching
  chunk hashes, it returns exactly the data.
\<close>

theorem split_chunks_join:
  assumes "0 < n"
  shows "\<exists>cs. split_chunks n data = Some cs \<and> concat cs = data \<and>
           (\<forall>i<length cs. 0 < length (cs ! i) \<and> length (cs ! i) \<le> n \<and>
                 (i + 1 < length cs \<longrightarrow> length (cs ! i) = n) \<and>
                 (length (cs ! i) < n \<longrightarrow> i + 1 = length cs \<and> \<not> n dvd length data)) \<and>
           (\<forall>bs. length bs = length cs \<and>
                 (\<forall>i<length cs. download_chunk cl (ipfs_hash (bs ! i)) st = Some (cs ! i) \<and>
                                chunk_hash (bs ! i) = sha256_hex (cs ! i))
                 \<longrightarrow> read_chunks cl st bs [] = Inr data)"
proof -
  obtain cs where cs: "split_chunks n data = Some cs" and join: "concat cs = data"
    and each: "\<forall>i<length cs. 0 < length (cs ! i) \<and> length (cs ! i) \<le> n \<and>
                 (i + 1 < length cs \<longrightarrow> length (cs ! i) = n) \<and>
                 (length (cs ! i) < n \<longrightarrow> i + 1 = length cs \<and> \<not> n dvd length data)"
    using split_chunks_shape [OF assms, of data] by blast
  have "read_chunks cl st bs [] = Inr data"
    if "length bs = length cs \<and>
        (\<forall>i<length cs. download_chunk cl (ipfs_hash (bs ! i)) st = Some (cs ! i) \<and>
                       chunk_hash (bs ! i) = sha256_hex (cs ! i))" for bs
    using that join read_chunks_all_verified [of bs cs cl st "[]"] by simp
  then show ?thesis
    using cs join each by blast
qed

lemma hello_blocks_match:
  "length hello_blocks = length [''hell'', ''o wo'', ''rld''] \<and>
   (\<forall>i<length [''hell'', ''o wo'', ''rld''].
      download_chunk mem_ipfs (ipfs_hash (hello_blocks ! i)) hello_store
        = Some ([''hell'', ''o wo'', ''rld''] ! i) \<and>
      chunk_hash (hello_blocks ! i) = sha256_hex ([''hell'', ''o wo'', ''rld''] ! i))"
  by (auto simp: hello_blocks_def hello_store_def mem_ipfs_def less_Suc_eq numeral_3_eq_3)

theorem split_chunks_join_witness:
  "(0::nat) < 4 \<and> split_chunks 4 ''hello world'' = Some [''hell'', ''o wo'', ''rld''] \<and>
   length hello_blocks = length [''hell'', ''o wo'', ''rld''] \<and>
   download_chunk mem_ipfs (ipfs_hash (hello_blocks ! 0)) hello_store = Some ''hell'' \<and>
   chunk_hash (hello_blocks ! 0) = sha256_hex ''hell'' \<and>
   download_chunk mem_ipfs (ipfs_hash (hello_blocks ! 1)) hello_store = Some ''o wo'' \<and>
   chunk_hash (hello_blocks ! 1) = sha256_hex ''o wo'' \<and>
   download_chunk mem_ipfs (ipfs_hash (hello_blocks ! 2)) hello_store = Some ''rld'' \<and>
   chunk_hash (hello_blocks ! 2) = sha256_hex ''rld'' \<and>
   read_chunks mem_ipfs hello_store hello_blocks [] = Inr ''hello world''"
proof -
  have h: "(0::nat) < 4" by simp
  have e: "split_chunks 4 ''hello world'' = Some [''hell'', ''o wo'', ''rld'']"
    by code_simp
  have each: "download_chunk mem_ipfs (ipfs_hash (hello_blocks ! 0)) hello_store = Some ''hell'' \<and>
      chunk_hash (hello_blocks ! 0) = sha256_hex ''hell'' \<and>
      download_chunk mem_ipfs (ipfs_hash (hello_blocks ! 1)) hello_store = Some ''o wo'' \<and>
      chunk_hash (hello_blocks ! 1) = sha256_hex ''o wo'' \<and>
      download_chunk mem_ipfs (ipfs_hash (hello_blocks ! 2)) hello_store = Some ''rld'' \<and>
      chunk_hash (hello_blocks ! 2) = sha256_hex ''rld''"
    by (simp add: hello_blocks_def hello_store_def mem_ipfs_def)
  obtain cs where cs: "split_chunks 4 ''hello world'' = Some cs"
    and j: "\<forall>bs. length bs = length cs \<and>
                 (\<forall>i<length cs. download_chunk mem_ipfs (ipfs_hash (bs ! i)) hello_store = Some (cs ! i) \<and>
                                chunk_hash (bs ! i) = sha256_hex (cs ! i))
                 \<longrightarrow> read_chunks mem_ipfs hello_store bs [] = Inr ''hello world''"
    using split_chunks_join [OF h, of "''hello world''" mem_ipfs hello_store] by blast
  have "cs = [''hell'', ''o wo'', ''rld'']"
    using cs e by simp
  then have "read_chunks mem_ipfs hello_store hello_blocks [] = Inr ''hello world''"
    using j hello_blocks_match by blast
  then show ?thesis
    using h e each hello_blocks_match by blast
qed

section \<open>Appending a block\<close>

lemma sealed_fields [simp]:
  "index (sealed b) = index b" "timestamp (sealed b) = timestamp b"
  "filename (sealed b) = filename b" "file_size (sealed b) = file_size b"
  "chunk_hash (sealed b) = chunk_hash b" "ipfs_hash (sealed b) = ipfs_hash b"
  "previous_hash (sealed b) = previous_hash b"
  by (simp_all add: sealed_def Let_def)

lemma sealed_hash [simp]: "hash (sealed b) = calculate_hash (sealed b)"
  by (simp add: sealed_def Let_def)

lemma add_block_nonempty:
  assumes "ch \<noteq> []"
  shows "add_block now f sz chh ih ch =
           (let b = sealed \<lparr>index = int (length ch), timestamp = now, filename = f, file_size = sz,
                             chunk_hash = chh, ipfs_hash = ih, previous_hash = hash (last ch),
                             nonce = 0, hash = ''''\<rparr>
            in Inr (b, ch @ [b]))"
proof -
  define nb where "nb = \<lparr>index = int (length ch), timestamp = now, filename = f, file_size = sz,
                         chunk_hash = chh, ipfs_hash = ih, previous_hash = hash (last ch),
                         nonce = 0, hash = ''''\<rparr>"
  obtain n mined where pw: "proof_of_work nb = (n, mined)"
    by (cases "proof_of_work nb")
  have "mined\<lparr>nonce := n\<rparr> = nb\<lparr>nonce := n\<rparr>"
    using snd_proof_of_work [where b = nb and x = n] pw by simp
  moreover have "fst (proof_of_work nb) = n"
    using pw by simp
  ultimately show ?thesis
    using assms pw
    by (simp add: add_block_def get_latest_block_def sealed_def Let_def nb_def [symmetric])
qed

lemma chain_inv_iff:
  "chain_inv c \<longleftrightarrow>
     (\<forall>i<length c. index (c ! i) = int i \<and> (0 < i \<longrightarrow> previous_hash (c ! i) = hash (c ! (i - 1))))"
  by (auto simp: chain_inv_def list_all_iff)

lemma filename_genesis0 [simp]: "filename genesis0 = ''GENESIS''"
  by (simp add: genesis0_def create_genesis_block_def)

lemma index_genesis0 [simp]: "index genesis0 = 0"
  by (simp add: genesis0_def create_genesis_block_def)

text \<open>
  Claim C9. On a chain that holds at least the genesis block (the constructor sees to that),
  \<^verbatim>\<open>add_block\<close> preserves the structural invariants: if every position carries its own
  index and every later block links to the stored hash of the block before it, the same holds
  after the call. The returned block is the new last element, its index is the old length,
  its previous hash is the old last block's hash, and its stored hash is the hash recomputed
  from its fields.
\<close>

theorem add_block_preserves_invariants:
  assumes "ch \<noteq> []" and "chain_inv ch"
  shows "\<exists>b. add_block now f sz chh ih ch = Inr (b, ch @ [b]) \<and> chain_inv (ch @ [b]) \<and>
             index b = int (length ch) \<and> previous_hash b = hash (last ch) \<and>
             hash b = calculate_hash b"
proof -
  define b where "b = sealed \<lparr>index = int (length ch), timestamp = now, filename = f, file_size = sz,
                         chunk_hash = chh, ipfs_hash = ih, previous_hash = hash (last ch),
                         nonce = 0, hash = ''''\<rparr>"
  have res: "add_block now f sz chh ih ch = Inr (b, ch @ [b])"
    using assms(1) by (simp add: add_block_nonempty b_def Let_def)
  have ix: "index b = int (length ch)" and ph: "previous_hash b = hash (last ch)"
    and hb: "hash b = calculate_hash b"
    by (simp_all add: b_def)
  have "index ((ch @ [b]) ! i) = int i \<and>
        (0 < i \<longrightarrow> previous_hash ((ch @ [b]) ! i) = hash ((ch @ [b]) ! (i - 1)))"
    if "i < length (ch @ [b])" for i
  proof (cases "i < length ch")
    case True
    then have "i - 1 < length ch"
      by simp
    then show ?thesis
      using True assms(2) by (simp add: chain_inv_iff nth_append)
  next
    case False
    then have "i = length ch" using that by simp
    then show ?thesis
      using assms(1) ix ph by (simp add: nth_append last_conv_nth)
  qed
  then have "chain_inv (ch @ [b])"
    by (simp only: chain_inv_iff) blast
  then show ?thesis
    using res ix ph hb by blast
qed

theorem add_block_preserves_invariants_witness:
  "[genesis0] \<noteq> [] \<and> chain_inv [genesis0] \<and>
   (\<exists>b. add_block ''2024-01-01T00:00:01'' ''f'' 5 (sha256_hex ''hello'') ''Qmhello'' [genesis0]
           = Inr (b, [genesis0] @ [b]) \<and>
        chain_inv ([genesis0] @ [b]) \<and> index b = int (length [genesis0]) \<and>
        previous_hash b = hash (last [genesis0]) \<and> hash b = calculate_hash b)"
proof -
  have h1: "[genesis0] \<noteq> []" by simp
  have h2: "chain_inv [genesis0]" by (simp add: chain_inv_def)
  show ?thesis
    using h1 h2 add_block_preserves_invariants [OF h1 h2] by blast
qed

section \<open>Writing a file\<close>





section \<open>Reading a file\<close>

lemma read_chunks_mismatch:
  assumes "b \<in> set bs" and "download_chunk cl (ipfs_hash b) st = Some d"
    and "sha256_hex d \<noteq> chunk_hash b"
  shows "read_chunks cl st bs acc = Inl (FuseOSError EIO)"
  using assms
proof (induction bs arbitrary: acc)
  case Nil
  then show ?case by simp
next
  case (Cons x bs)
  show ?case
  proof (cases "download_chunk cl (ipfs_hash x) st")
    case None
    then show ?thesis by simp
  next
    case (Some chunk_data)
    show ?thesis
    proof (cases "verify_chunk chunk_data (chunk_hash x)")
      case False
      then show ?thesis using Some by simp
    next
      case True
      then have "x \<noteq> b"
        using Some Cons.prems by (auto simp: verify_chunk_def)
      then have "b \<in> set bs"
        using Cons.prems by simp
      then have "read_chunks cl st bs (acc @ chunk_data) = Inl (FuseOSError EIO)"
        using Cons.IH Cons.prems by blast
      then show ?thesis
        using Some True by simp
    qed
  qed
qed

lemma sha_jello:
  "sha256_hex ''jello'' = ''187c9bceeb919e1b3e6d20fa50ecabf7d9d50b5343e8f9a3d912abb13929102e''"
  by code_simp

text \<open>
  Claim C1. If, for some block of the file, the store returns bytes whose SHA-256 digest
  differs from the block's chunk hash, the read fails and returns no bytes: the result is the
  adapter's I/O error \<^verbatim>\<open>FuseOSError(EIO)\<close>, the one error that \<^verbatim>\<open>read\<close> raises, whatever
  the other blocks hold and whatever slice was asked for.
\<close>

theorem read_hash_mismatch:
  assumes "b \<in> set (get_file_blocks (drop 1 path) (chain s))"
    and "download_chunk cl (ipfs_hash b) (store s) = Some d"
    and "sha256_hex d \<noteq> chunk_hash b"
  shows "read_fuse cl path sz offset s = Inl (FuseOSError EIO)"
proof -
  have "b \<in> set (sort_key index (get_file_blocks (drop 1 path) (chain s)))"
    using assms(1) by simp
  then have "read_chunks cl (store s) (sort_key index (get_file_blocks (drop 1 path) (chain s))) []
               = Inl (FuseOSError EIO)"
    using assms(2,3) by (rule read_chunks_mismatch)
  then show ?thesis
    by (simp add: read_fuse_def read_body_def Let_def split: sum.splits)
qed

theorem read_hash_mismatch_witness:
  "block1 \<in> set (get_file_blocks (drop 1 ''/f'') (chain corrupted_fs)) \<and>
   download_chunk mem_ipfs (ipfs_hash block1) (store corrupted_fs) = Some ''jello'' \<and>
   sha256_hex ''jello'' \<noteq> chunk_hash block1 \<and>
   detect_tampering ''f'' (chain corrupted_fs) = [] \<and>
   read_fuse mem_ipfs ''/f'' 5 0 corrupted_fs = Inl (FuseOSError EIO)"
proof -
  have h1: "block1 \<in> set (get_file_blocks (drop 1 ''/f'') (chain corrupted_fs))"
    by (simp add: corrupted_fs_def get_file_blocks_def block1_def candidate1_def)
  have h2: "download_chunk mem_ipfs (ipfs_hash block1) (store corrupted_fs) = Some ''jello''"
    by (simp add: corrupted_fs_def mem_ipfs_def block1_def candidate1_def)
  have h3: "sha256_hex ''jello'' \<noteq> chunk_hash block1"
    by (simp add: sha_jello) (simp add: block1_def candidate1_def)
  have "hash block1 = calculate_hash block1"
    by (simp add: block1_hash) (simp add: block1_def)
  then have h4: "detect_tampering ''f'' (chain corrupted_fs) = []"
    by (simp add: detect_tampering_def get_file_blocks_def corrupted_fs_def)
  show ?thesis
    using h1 h2 h3 h4 read_hash_mismatch [OF h1 h2 h3, of 5 0] by blast
qed

text \<open>
  Claim C6 says that reading a file with no block on the chain fails with \<^verbatim>\<open>ENOENT\<close>. The
  body of \<^verbatim>\<open>read\<close> does raise \<^verbatim>\<open>FuseOSError(ENOENT)\<close>, but inside the \<^verbatim>\<open>try\<close> block,
  whose handler catches it and raises \<^verbatim>\<open>FuseOSError(EIO)\<close>: on the fresh chain, reading
  \<^verbatim>\<open>/missing\<close> ends with \<^verbatim>\<open>EIO\<close>.
\<close>

theorem read_missing_raises_eio:
  "read_body mem_ipfs ''missing'' 10 0 fresh_fs = Inl (FuseOSError ENOENT) \<and>
   read_fuse mem_ipfs ''/missing'' 10 0 fresh_fs = Inl (FuseOSError EIO)"
  by (simp add: read_fuse_def read_body_def get_file_blocks_def fresh_fs_def)

text \<open>
  Claim C7 says that \<^verbatim>\<open>get_file_blocks\<close> never returns a block named \<^verbatim>\<open>GENESIS\<close>. The
  function filters on the name alone: asked for \<^verbatim>\<open>GENESIS\<close> on the fresh chain, it returns
  the genesis block.
\<close>

theorem get_file_blocks_genesis:
  "get_file_blocks ''GENESIS'' (chain fresh_fs) = [genesis0]"
  by (simp add: get_file_blocks_def fresh_fs_def)

section \<open>Reading after writing\<close>

lemma split_chunks_single:
  "split_chunks CHUNK_SIZE [c] = Some [[c]]"
  by (simp add: split_chunks_def range_step_def CHUNK_SIZE_def)

lemma written_once_eq:
  "written_once =
     \<lparr>chain = [genesis0,
                sealed \<lparr>index = 1, timestamp = clock0 0, filename = ''f'', file_size = 1,
                        chunk_hash = sha256_hex ''a'', ipfs_hash = ''Qma'',
                        previous_hash = hash genesis0, nonce = 0, hash = ''''\<rparr>],
      store = [''Qma'' \<mapsto> ''a''], files = [''f'' \<mapsto> 1]\<rparr>"
  by (simp add: written_once_def write_fuse_def write_body_def split_chunks_single fresh_fs_def
      mem_ipfs_def add_block_nonempty Let_def)

lemma second_write:
  "write_fuse mem_ipfs clock0 ''/f'' ''b'' 0 written_once =
     (Inr 1,
      \<lparr>chain = [genesis0,
                sealed \<lparr>index = 1, timestamp = clock0 0, filename = ''f'', file_size = 1,
                        chunk_hash = sha256_hex ''a'', ipfs_hash = ''Qma'',
                        previous_hash = hash genesis0, nonce = 0, hash = ''''\<rparr>,
                sealed \<lparr>index = 2, timestamp = clock0 0, filename = ''f'', file_size = 1,
                        chunk_hash = sha256_hex ''b'', ipfs_hash = ''Qmb'',
                        previous_hash = calculate_hash (sealed \<lparr>index = 1, timestamp = clock0 0,
                          filename = ''f'', file_size = 1, chunk_hash = sha256_hex ''a'',
                          ipfs_hash = ''Qma'', previous_hash = hash genesis0, nonce = 0, hash = ''''\<rparr>),
                        nonce = 0, hash = ''''\<rparr>],
      store = [''Qma'' \<mapsto> ''a'', ''Qmb'' \<mapsto> ''b''], files = [''f'' \<mapsto> 1]\<rparr>)"
  by (simp add: written_once_eq write_fuse_def write_body_def split_chunks_single
      mem_ipfs_def add_block_nonempty Let_def)

lemma written_twice_eq:
  "written_twice =
      \<lparr>chain = [genesis0,
                sealed \<lparr>index = 1, timestamp = clock0 0, filename = ''f'', file_size = 1,
                        chunk_hash = sha256_hex ''a'', ipfs_hash = ''Qma'',
                        previous_hash = hash genesis0, nonce = 0, hash = ''''\<rparr>,
                sealed \<lparr>index = 2, timestamp = clock0 0, filename = ''f'', file_size = 1,
                        chunk_hash = sha256_hex ''b'', ipfs_hash = ''Qmb'',
                        previous_hash = calculate_hash (sealed \<lparr>index = 1, timestamp = clock0 0,
                          filename = ''f'', file_size = 1, chunk_hash = sha256_hex ''a'',
                          ipfs_hash = ''Qma'', previous_hash = hash genesis0, nonce = 0, hash = ''''\<rparr>),
                        nonce = 0, hash = ''''\<rparr>],
      store = [''Qma'' \<mapsto> ''a'', ''Qmb'' \<mapsto> ''b''], files = [''f'' \<mapsto> 1]\<rparr>"
  by (simp only: written_twice_def second_write snd_conv)

lemma read_after_first_write: "read_fuse mem_ipfs ''/f'' 1 0 written_once = Inr ''a''"
  by (simp add: written_once_eq read_fuse_def read_body_def get_file_blocks_def
      detect_tampering_def mem_ipfs_def verify_chunk_def Let_def)

text \<open>
  Claim C3 says that a read right after a write returns the written bytes. Writing \<open>a\<close> to the
  new file \<^verbatim>\<open>/f\<close> and reading one byte back does return \<open>a\<close>. Writing \<open>b\<close> to the same
  path afterwards keeps the block of the first write, and the read that follows the second
  write concatenates both chunks in index order: it returns \<open>a\<close>, not \<open>b\<close>.
\<close>

theorem read_after_rewrite_returns_old:
  "fst (write_fuse mem_ipfs clock0 ''/f'' ''a'' 0 fresh_fs) = Inr 1 \<and>
   fst (write_fuse mem_ipfs clock0 ''/f'' ''b'' 0 written_once) = Inr 1 \<and>
   read_fuse mem_ipfs ''/f'' 1 0 written_twice = Inr ''a''"
proof -
  have "fst (write_fuse mem_ipfs clock0 ''/f'' ''a'' 0 fresh_fs) = Inr 1"
    by (simp add: write_fuse_def write_body_def split_chunks_single fresh_fs_def
        mem_ipfs_def add_block_nonempty Let_def)
  moreover have "fst (write_fuse mem_ipfs clock0 ''/f'' ''b'' 0 written_once) = Inr 1"
    by (simp only: second_write fst_conv)
  moreover have "read_fuse mem_ipfs ''/f'' 1 0 written_twice = Inr ''a''"
    by (simp add: written_twice_eq read_fuse_def read_body_def get_file_blocks_def
        detect_tampering_def mem_ipfs_def verify_chunk_def Let_def)
  ultimately show ?thesis
    by blast
qed

end
